theory Spec2Isabelle
  imports Complex_Main
begin

section \<open>Python values used by app.py\<close>

text \<open>
  A Python \<open>str\<close> is modelled as a \<open>string\<close>; a character stands for a code point
  below 256. Exceptions are values of \<open>py_error\<close>; a function that may raise returns
  \<open>py_error + 'a\<close> with \<open>Inl\<close> for the exception.
\<close>

datatype py_error =
    KeyError string
  | IndexError
  | ValueError
  | ZeroDivisionError
  | TranslatorError
  | LanguageNotSupported string

text \<open>\<open>str.isspace\<close> on one character, for code points below 256.\<close>

definition whitespace :: "char list" where
  "whitespace = [CHR 0x09, CHR 0x0A, CHR 0x0B, CHR 0x0C, CHR 0x0D,
                 CHR 0x1C, CHR 0x1D, CHR 0x1E, CHR 0x1F, CHR 0x20, CHR 0x85, CHR 0xA0]"

definition isspace :: "char \<Rightarrow> bool" where
  "isspace c = (c \<in> set whitespace)"

text \<open>\<open>s.strip()\<close>: leading and trailing whitespace removed.\<close>

definition strip :: "string \<Rightarrow> string" where
  "strip s = rev (dropWhile isspace (rev (dropWhile isspace s)))"

text \<open>\<open>s.startswith(p)\<close>.\<close>

definition startswith :: "string \<Rightarrow> string \<Rightarrow> bool" where
  "startswith s p = (take (length p) s = p)"

text \<open>
  \<open>s.split(sep)\<close> with a separator: the text is cut at every occurrence of \<open>sep\<close>,
  found from left to right without overlap. The source only passes the non-empty
  literals \<open>'\n'\<close>, \<open>':'\<close> and \<open>') '\<close> (Python rejects an empty separator).
\<close>

function split :: "string \<Rightarrow> string \<Rightarrow> string list" where
  "split [] sep = [[]]"
| "split (c # cs) sep =
     (if sep \<noteq> [] \<and> startswith (c # cs) sep
      then [] # split (drop (length sep) (c # cs)) sep
      else (case split cs sep of
              [] \<Rightarrow> [[c]]
            | w # ws \<Rightarrow> (c # w) # ws))"
  by pat_completeness auto
termination
  by (relation "measure (\<lambda>(s, sep). length s)") auto

text \<open>\<open>sep.join(xs)\<close>.\<close>

fun join :: "string \<Rightarrow> string list \<Rightarrow> string" where
  "join sep [] = []"
| "join sep [x] = x"
| "join sep (x # y # ys) = x @ sep @ join sep (y # ys)"

text \<open>\<open>range(i, n, s)\<close> for a non-negative start and a positive step.\<close>

function range_step :: "nat \<Rightarrow> nat \<Rightarrow> nat \<Rightarrow> nat list" where
  "range_step i n s = (if 0 < s \<and> i < n then i # range_step (i + s) n s else [])"
  by pat_completeness auto
termination
  by (relation "measure (\<lambda>(i, n, s). n - i)") auto

declare range_step.simps [simp del]

section \<open>translate_text\<close>

text \<open>
  \<^verbatim>\<open>chunks = [text[i:i+chunk_size] for i in range(0, len(text), chunk_size)]\<close>
  with the chunk size as a parameter; \<open>range\<close> raises \<open>ValueError\<close> on a zero step.
\<close>

definition chunks :: "nat \<Rightarrow> string \<Rightarrow> py_error + string list" where
  "chunks sz text =
     (if sz = 0 then Inl ValueError
      else Inr (map (\<lambda>i. take sz (drop i text)) (range_step 0 (length text) sz)))"

definition chunk_size :: nat where
  "chunk_size = 500"

text \<open>
  The translation collaborator is a parameter. \<open>GoogleTranslator(source='auto',
  target=dest_language)\<close> (line 48) builds a translator for the target language or raises,
  as the library does for a language it does not support; \<open>translator.translate\<close>
  returns the translated chunk or raises.
\<close>

type_synonym translator = "string \<Rightarrow> py_error + string"

type_synonym translator_factory = "string \<Rightarrow> py_error + translator"

text \<open>
  \<open>translate_chunks\<close> is the list comprehension
  \<^verbatim>\<open>[translator.translate(chunk) for chunk in chunks]\<close>; it carries the record of the
  chunks handed to the collaborator so far, and stops at the first exception.
\<close>

fun translate_chunks ::
  "translator \<Rightarrow> string list \<Rightarrow> string list \<Rightarrow> (py_error + string list) \<times> string list" where
  "translate_chunks tr [] calls = (Inr [], calls)"
| "translate_chunks tr (c # cs) calls =
     (case tr c of
        Inl e \<Rightarrow> (Inl e, calls @ [c])
      | Inr t \<Rightarrow>
          (case translate_chunks tr cs (calls @ [c]) of
             (Inl e, calls') \<Rightarrow> (Inl e, calls')
           | (Inr ts, calls') \<Rightarrow> (Inr (t # ts), calls')))"

text \<open>
  \<open>translate_text\<close> (lines 47-52) returns the joined translation (or the exception)
  together with the list of calls of \<open>translator.translate\<close> it made, in order. The
  translator is built first, so an exception of line 48 is raised before any chunk is cut.
\<close>

definition translate_text ::
  "translator_factory \<Rightarrow> string \<Rightarrow> string \<Rightarrow> (py_error + string) \<times> string list" where
  "translate_text google_translator text dest_language =
     (case google_translator dest_language of
        Inl e \<Rightarrow> (Inl e, [])
      | Inr tr \<Rightarrow>
          (case chunks chunk_size text of
             Inl e \<Rightarrow> (Inl e, [])
           | Inr cs \<Rightarrow>
               (case translate_chunks tr cs [] of
                  (Inl e, calls) \<Rightarrow> (Inl e, calls)
                | (Inr ts, calls) \<Rightarrow> (Inr (join '' '' ts), calls))))"

text \<open>
  A collaborator for the concrete evaluations: it builds a translator for the two
  languages the script passes (\<open>en\<close> and \<open>hi\<close>, line 162) and rejects every other
  language; its translation returns the chunk unchanged.
\<close>

definition example_translator :: translator where
  "example_translator chunk = Inr chunk"

definition example_google_translator :: translator_factory where
  "example_google_translator target =
     (if target = ''en'' \<or> target = ''hi'' then Inr example_translator
      else Inl (LanguageNotSupported target))"


section \<open>parse_mcqs\<close>

text \<open>
  A question is the Python dict built by \<open>parse_mcqs\<close>; each of its three keys may be
  absent (\<open>None\<close>). The empty dict \<open>{}\<close> is the only falsy one.
\<close>

record mcq =
  question :: "string option"
  options :: "string list option"
  correct_answer :: "string option"

definition empty_mcq :: mcq where
  "empty_mcq = \<lparr>question = None, options = None, correct_answer = None\<rparr>"

text \<open>\<open>xs[i]\<close> for a literal index \<open>i \<ge> 0\<close>.\<close>

definition index :: "'a list \<Rightarrow> nat \<Rightarrow> py_error + 'a" where
  "index xs i = (if i < length xs then Inr (xs ! i) else Inl IndexError)"

definition newline :: string where
  "newline = [CHR 0x0A]"

text \<open>
  \<^verbatim>\<open>if current_question: questions.append(current_question)\<close>, the statement at the
  \<open>Q:\<close> branch (lines 80-81) and after the loop (lines 87-88).
\<close>

definition append_current :: "mcq list \<times> mcq \<Rightarrow> mcq list" where
  "append_current st =
     (case st of (questions, current_question) \<Rightarrow>
        if current_question \<noteq> empty_mcq then questions @ [current_question] else questions)"

text \<open>
  \<^verbatim>\<open>line.startswith(('A)', 'B)', 'C)', 'D)'))\<close>
\<close>

definition is_option_line :: "string \<Rightarrow> bool" where
  "is_option_line line =
     (startswith line ''A)'' \<or> startswith line ''B)'' \<or>
      startswith line ''C)'' \<or> startswith line ''D)'')"

text \<open>
  The body of the loop of \<open>parse_mcqs\<close> on one line (lines 78-86); the state is the pair
  of \<open>questions\<close> and \<open>current_question\<close>. Reading \<open>current_question['options']\<close> on a
  dict without that key raises \<open>KeyError\<close>.
\<close>

definition parse_line :: "mcq list \<times> mcq \<Rightarrow> string \<Rightarrow> py_error + mcq list \<times> mcq" where
  "parse_line st raw =
     (case st of (questions, current_question) \<Rightarrow>
        let line = strip raw in
        if startswith line ''Q:'' then
          Inr (append_current (questions, current_question),
               \<lparr>question = Some (strip (drop 2 line)), options = Some [], correct_answer = None\<rparr>)
        else if is_option_line line then
          (case options current_question of
             None \<Rightarrow> Inl (KeyError ''options'')
           | Some opts \<Rightarrow> Inr (questions, current_question\<lparr>options := Some (opts @ [line])\<rparr>))
        else if startswith line ''Correct Answer:'' then
          (case index (split line '':'') 1 of
             Inl e \<Rightarrow> Inl e
           | Inr v \<Rightarrow> Inr (questions, current_question\<lparr>correct_answer := Some (strip v)\<rparr>))
        else Inr (questions, current_question))"

fun parse_lines :: "mcq list \<times> mcq \<Rightarrow> string list \<Rightarrow> py_error + mcq list \<times> mcq" where
  "parse_lines st [] = Inr st"
| "parse_lines st (raw # rest) =
     (case parse_line st raw of
        Inl e \<Rightarrow> Inl e
      | Inr st' \<Rightarrow> parse_lines st' rest)"

definition parse_mcqs :: "string \<Rightarrow> py_error + mcq list" where
  "parse_mcqs mcqs_text =
     (case parse_lines ([], empty_mcq) (split mcqs_text newline) of
        Inl e \<Rightarrow> Inl e
      | Inr st \<Rightarrow> Inr (append_current st))"

text \<open>
  The precondition of the totality claim: every line that (trimmed) begins with one of
  the option markers comes after some line that (trimmed) begins with \<open>Q:\<close>.
\<close>

definition options_after_q :: "string list \<Rightarrow> bool" where
  "options_after_q lines =
     (\<forall>i<length lines. is_option_line (strip (lines ! i)) \<longrightarrow>
        (\<exists>j<i. startswith (strip (lines ! j)) ''Q:''))"

text \<open>
  Following the words of the correct-label claim, for comparison with the code: the text
  after the first colon of a line.
\<close>

definition text_after_first_colon_spec :: "string \<Rightarrow> string" where
  "text_after_first_colon_spec line = drop 1 (dropWhile (\<lambda>c. c \<noteq> CHR '':'') line)"

text \<open>
  Following the grammar of the round-trip claim (the format the prompt of
  \<open>generate_mcqs\<close> asks for, lines 60-65), for comparison with the parser: a known
  question is its text, its option lines and its label; it is written as the line
  \<open>Q: <text>\<close>, the option lines in their order, and the line \<open>Correct Answer: <label>\<close>.
  The lines of all questions are joined by newlines.
\<close>

type_synonym known_question = "string \<times> string list \<times> string"

definition format_question :: "known_question \<Rightarrow> string list" where
  "format_question k =
     (case k of (text, opts, label) \<Rightarrow>
        [''Q: '' @ text] @ opts @ [''Correct Answer: '' @ label])"

definition format_questions :: "known_question list \<Rightarrow> string" where
  "format_questions ks = join newline (concat (map format_question ks))"

definition mcq_of :: "known_question \<Rightarrow> mcq" where
  "mcq_of k =
     (case k of (text, opts, label) \<Rightarrow>
        \<lparr>question = Some text, options = Some opts, correct_answer = Some label\<rparr>)"

text \<open>
  A well-formed question, in the words of the round-trip claim and of the data model:
  four option lines, each beginning with one of the markers \<open>A)\<close>, \<open>B)\<close>, \<open>C)\<close>,
  \<open>D)\<close>, and a label that is one of \<open>A\<close>, \<open>B\<close>, \<open>C\<close>, \<open>D\<close>.
\<close>

definition well_formed :: "known_question \<Rightarrow> bool" where
  "well_formed k =
     (case k of (text, opts, label) \<Rightarrow>
        length opts = 4 \<and> (\<forall>opt \<in> set opts. is_option_line opt) \<and>
        label \<in> {''A'', ''B'', ''C'', ''D''})"

text \<open>
  The further condition under which the parser reproduces a question: its text and its
  option lines are single lines without leading or trailing whitespace (the parser
  splits at newlines and trims every line, lines 77-78 and 82).
\<close>

definition trimmed_line :: "string \<Rightarrow> bool" where
  "trimmed_line s = (strip s = s \<and> CHR 0x0A \<notin> set s)"

definition trimmed_question :: "known_question \<Rightarrow> bool" where
  "trimmed_question k =
     (case k of (text, opts, label) \<Rightarrow>
        trimmed_line text \<and> (\<forall>opt \<in> set opts. trimmed_line opt))"

section \<open>The quiz session\<close>

text \<open>
  An answer is what \<open>st.radio\<close> returns: the chosen text, or Python's \<open>None\<close>.
  \<^verbatim>\<open>if selected_option:\<close> holds for a non-empty string only.
\<close>

type_synonym answer = "string option"

definition truthy :: "answer \<Rightarrow> bool" where
  "truthy a = (case a of None \<Rightarrow> False | Some s \<Rightarrow> s \<noteq> [])"

text \<open>
  The keys of \<open>st.session_state\<close> that the quiz uses. \<open>questions\<close> is \<open>None\<close> or a list;
  \<open>answers\<close> is \<open>None\<close> while the key is absent (reading it then raises \<open>KeyError\<close>).
\<close>

record session_state =
  questions :: "mcq list option"
  answers :: "answer list option"
  submitted :: bool

text \<open>
  What the user does in one run of the script: \<open>selections ! i\<close> is the value
  \<open>st.radio\<close> returns for question \<open>i\<close> (\<open>None\<close> beyond the list), and the two flags are
  the values of the buttons \<open>Submit Answers\<close> and \<open>Start Again\<close>.
\<close>

record ui_input =
  selections :: "answer list"
  submit_answers :: bool
  start_again :: bool

definition radio :: "ui_input \<Rightarrow> nat \<Rightarrow> answer" where
  "radio inp i = (if i < length (selections inp) then selections inp ! i else None)"

text \<open>\<^verbatim>\<open>opt.split(') ')[1]\<close>, the text shown for an option and compared at scoring.\<close>

definition option_text :: "string \<Rightarrow> py_error + string" where
  "option_text opt = index (split opt '') '') 1"

fun map_result :: "('a \<Rightarrow> py_error + 'b) \<Rightarrow> 'a list \<Rightarrow> py_error + 'b list" where
  "map_result f [] = Inr []"
| "map_result f (x # xs) =
     (case f x of
        Inl e \<Rightarrow> Inl e
      | Inr y \<Rightarrow> (case map_result f xs of Inl e \<Rightarrow> Inl e | Inr ys \<Rightarrow> Inr (y # ys)))"

text \<open>
  The first loop of \<open>display_mcqs\<close> (lines 100-104), from question \<open>i\<close> on: the question
  text and the option texts are read, and the value of the radio widget is stored in
  \<open>answers[i]\<close>.
\<close>

fun collect_answers ::
  "ui_input \<Rightarrow> nat \<Rightarrow> mcq list \<Rightarrow> answer list option \<Rightarrow> py_error + answer list option" where
  "collect_answers inp i [] ans = Inr ans"
| "collect_answers inp i (q # qs) ans =
     (case question q of
        None \<Rightarrow> Inl (KeyError ''question'')
      | Some _ \<Rightarrow>
     (case options q of
        None \<Rightarrow> Inl (KeyError ''options'')
      | Some opts \<Rightarrow>
     (case map_result option_text opts of
        Inl e \<Rightarrow> Inl e
      | Inr _ \<Rightarrow>
     (case ans of
        None \<Rightarrow> Inl (KeyError ''answers'')
      | Some a \<Rightarrow>
          if i < length a then collect_answers inp (Suc i) qs (Some (a[i := radio inp i]))
          else Inl IndexError))))"

text \<open>
  Lines 117-118: the first option that starts with the correct label, then its text.
  \<open>Inr None\<close> stands for \<open>StopIteration\<close>, which the caller catches.
\<close>

definition correct_text :: "mcq \<Rightarrow> string \<Rightarrow> py_error + string option" where
  "correct_text q correct_option =
     (case options q of
        None \<Rightarrow> Inl (KeyError ''options'')
      | Some opts \<Rightarrow>
          (case find (\<lambda>opt. startswith opt correct_option) opts of
             None \<Rightarrow> Inr None
           | Some opt \<Rightarrow>
               (case option_text opt of Inl e \<Rightarrow> Inl e | Inr t \<Rightarrow> Inr (Some t))))"

datatype outcome = Correct | Incorrect string | Unanswered | AnswerError

text \<open>The body of the scoring loop (lines 112-128) for question \<open>i\<close>.\<close>

definition score_question :: "mcq \<Rightarrow> answer list option \<Rightarrow> nat \<Rightarrow> py_error + outcome" where
  "score_question q ans i =
     (case question q of
        None \<Rightarrow> Inl (KeyError ''question'')
      | Some _ \<Rightarrow>
     (case correct_answer q of
        None \<Rightarrow> Inl (KeyError ''correct_answer'')
      | Some correct_option \<Rightarrow>
     (case ans of
        None \<Rightarrow> Inl (KeyError ''answers'')
      | Some a \<Rightarrow>
     (case index a i of
        Inl e \<Rightarrow> Inl e
      | Inr selected_option \<Rightarrow>
     (case correct_text q correct_option of
        Inl e \<Rightarrow> Inl e
      | Inr None \<Rightarrow> Inr AnswerError
      | Inr (Some t) \<Rightarrow>
          Inr (if truthy selected_option
               then (if selected_option = Some t then Correct else Incorrect t)
               else Unanswered))))))"

text \<open>The scoring loop (lines 110-128): \<open>correct_count\<close> and the messages shown so far.\<close>

fun score_questions ::
  "nat \<Rightarrow> mcq list \<Rightarrow> answer list option \<Rightarrow> nat \<Rightarrow> outcome list \<Rightarrow> py_error + nat \<times> outcome list" where
  "score_questions i [] ans count outs = Inr (count, outs)"
| "score_questions i (q # qs) ans count outs =
     (case score_question q ans i of
        Inl e \<Rightarrow> Inl e
      | Inr out \<Rightarrow>
          score_questions (Suc i) qs ans (if out = Correct then count + 1 else count) (outs @ [out]))"

text \<open>
  The score (lines 110-132): \<open>correct_count\<close>, \<open>total_questions\<close> and the messages
  shown. Line 131 computes the percentage from the two counts as a Python float; the
  float is not represented, only the \<open>ZeroDivisionError\<close> of the division is.
\<close>

record score_report =
  correct_count :: nat
  total_questions :: nat
  outcomes :: "outcome list"

definition score :: "mcq list \<Rightarrow> answer list option \<Rightarrow> py_error + score_report" where
  "score qs ans =
     (case score_questions 0 qs ans 0 [] of
        Inl e \<Rightarrow> Inl e
      | Inr (count, outs) \<Rightarrow>
          if length qs = 0 then Inl ZeroDivisionError
          else Inr \<lparr>correct_count = count, total_questions = length qs,
                    outcomes = outs\<rparr>)"

text \<open>
  \<open>reset_state\<close> followed by the rerun of the script: the quiz keys are deleted, and the
  initialisation (lines 155-158) sets \<open>submitted\<close> and \<open>questions\<close> again.
\<close>

definition reset_state :: session_state where
  "reset_state = \<lparr>questions = None, answers = None, submitted = False\<rparr>"

text \<open>
  One run of \<open>display_mcqs\<close> (lines 98-142): the new session state and the score shown,
  if any.
\<close>

definition display_mcqs :: "ui_input \<Rightarrow> session_state \<Rightarrow> py_error + session_state \<times> score_report option" where
  "display_mcqs inp s =
     (case
        (case questions s of
           None \<Rightarrow> Inr (s, None)
         | Some qs \<Rightarrow>
             if qs = [] then Inr (s, None)
             else
               (case collect_answers inp 0 qs (answers s) of
                  Inl e \<Rightarrow> Inl e
                | Inr ans \<Rightarrow>
                    let s' = s\<lparr>answers := ans, submitted := (submit_answers inp \<or> submitted s)\<rparr>
                    in if submitted s'
                       then (case score qs ans of Inl e \<Rightarrow> Inl e | Inr r \<Rightarrow> Inr (s', Some r))
                       else Inr (s', None)))
      of
        Inl e \<Rightarrow> Inl e
      | Inr (s', report) \<Rightarrow>
          if start_again inp then Inr (reset_state, None) else Inr (s', report))"

text \<open>
  The run of the script in which \<open>Generate MCQs\<close> is pressed (lines 183-192);
  \<open>mcqs_text\<close> is the text returned by the generation collaborator.
\<close>

definition store_questions :: "string \<Rightarrow> session_state \<Rightarrow> py_error + session_state" where
  "store_questions mcqs_text s =
     (case parse_mcqs mcqs_text of
        Inl e \<Rightarrow> Inl e
      | Inr qs \<Rightarrow>
          Inr (s\<lparr>questions := Some qs, answers := Some (replicate (length qs) (Some [])),
                 submitted := False\<rparr>))"

definition generate_run ::
  "ui_input \<Rightarrow> string \<Rightarrow> session_state \<Rightarrow> py_error + session_state \<times> score_report option" where
  "generate_run inp mcqs_text s =
     (case store_questions mcqs_text s of
        Inl e \<Rightarrow> Inl e
      | Inr s' \<Rightarrow>
          (case questions s' of
             None \<Rightarrow> Inr (s', None)
           | Some qs \<Rightarrow> if qs = [] then Inr (s', None) else display_mcqs inp s'))"



text \<open>
  Following the words of the scoring claim, for comparison with \<open>option_text\<close>: the
  display text of an option is the text after its \<open>X) \<close> marker.
\<close>

definition display_text_spec :: "string \<Rightarrow> string" where
  "display_text_spec opt = drop 3 opt"


section \<open>Chunking\<close>

lemma range_step_concat:
  "0 < s \<Longrightarrow> concat (map (\<lambda>j. take s (drop j t)) (range_step i (length t) s)) = drop i t"
proof (induction i "length t" s rule: range_step.induct)
  case (1 i s)
  show ?case
  proof (cases "i < length t")
    case True
    have "take s (drop i t) @ drop (i + s) t = drop i t"
      by (metis add.commute append_take_drop_id drop_drop)
    with True 1 show ?thesis
      by (simp add: range_step.simps [of i])
  next
    case False
    then show ?thesis
      by (simp add: range_step.simps [of i])
  qed
qed

lemma range_step_nth:
  "k < length (range_step i n s) \<Longrightarrow> range_step i n s ! k = i + k * s"
proof (induction i n s arbitrary: k rule: range_step.induct)
  case (1 i n s)
  show ?case
  proof (cases "0 < s \<and> i < n")
    case True
    then have eq: "range_step i n s = i # range_step (i + s) n s"
      by (simp add: range_step.simps [of i])
    show ?thesis
    proof (cases k)
      case 0
      then show ?thesis by (simp add: eq)
    next
      case (Suc m)
      with "1.prems" eq have "m < length (range_step (i + s) n s)" by simp
      with "1.IH" True have "range_step (i + s) n s ! m = i + s + m * s" by simp
      with Suc show ?thesis by (simp add: eq)
    qed
  next
    case False
    with "1.prems" show ?thesis
      by (simp add: range_step.simps [of i])
  qed
qed

lemma range_step_bound:
  "j \<in> set (range_step i n s) \<Longrightarrow> j < n"
proof (induction i n s rule: range_step.induct)
  case (1 i n s)
  then show ?case
    by (cases "0 < s \<and> i < n") (auto simp: range_step.simps [of i])
qed

text \<open>
  C5. For every text \<open>T\<close> and every chunk size \<open>S > 0\<close> the splitting step succeeds;
  chunk \<open>k\<close> is the slice \<open>T[k*S : k*S+S]\<close> (original order, no overlap, no gap), every
  chunk is non-empty and at most \<open>S\<close> long, every chunk but the last is exactly \<open>S\<close>
  long, and the concatenation of the chunks in index order is \<open>T\<close>.
\<close>

theorem chunks_roundtrip:
  assumes "0 < S"
  shows "\<exists>cs. chunks S T = Inr cs \<and> concat cs = T \<and>
           (\<forall>k<length cs. cs ! k = take S (drop (k * S) T) \<and> cs ! k \<noteq> [] \<and>
                length (cs ! k) \<le> S \<and> (Suc k < length cs \<longrightarrow> length (cs ! k) = S))"
proof -
  let ?r = "range_step 0 (length T) S"
  let ?cs = "map (\<lambda>i. take S (drop i T)) ?r"
  have def: "chunks S T = Inr ?cs"
    using assms by (simp add: chunks_def)
  have cat: "concat ?cs = T"
    using range_step_concat [OF assms, of T 0] by simp
  have each: "?cs ! k = take S (drop (k * S) T) \<and> ?cs ! k \<noteq> [] \<and>
      length (?cs ! k) \<le> S \<and> (Suc k < length ?cs \<longrightarrow> length (?cs ! k) = S)"
    if k: "k < length ?cs" for k
  proof -
    from k have kr: "k < length ?r" by simp
    then have nth: "?r ! k = k * S"
      using range_step_nth [of k 0 "length T" S] by simp
    from kr have "?r ! k \<in> set ?r" by simp
    then have lt: "k * S < length T"
      using range_step_bound [of "?r ! k" 0 "length T" S] nth by simp
    have full: "length (?cs ! k) = S" if "Suc k < length ?cs"
    proof -
      from that have sr: "Suc k < length ?r" by simp
      then have "?r ! Suc k = Suc k * S"
        using range_step_nth [of "Suc k" 0 "length T" S] by simp
      moreover from sr have "?r ! Suc k \<in> set ?r" by simp
      ultimately have "Suc k * S < length T"
        using range_step_bound [of "?r ! Suc k" 0 "length T" S] by simp
      then show ?thesis
        using kr nth by simp
    qed
    from kr nth lt assms full show ?thesis
      by auto
  qed
  from def cat each show ?thesis
    by blast
qed

theorem chunks_roundtrip_witness:
  "(0::nat) < 2 \<and> chunks 2 ''abcde'' = Inr [''ab'', ''cd'', ''e''] \<and>
   concat [''ab'', ''cd'', ''e''] = ''abcde''"
proof -
  have pos: "(0::nat) < 2" by simp
  have val: "chunks 2 ''abcde'' = Inr [''ab'', ''cd'', ''e'']"
    by (simp add: chunks_def range_step.simps)
  from chunks_roundtrip [OF pos, of "''abcde''"] val pos show ?thesis
    by auto
qed

text \<open>
  C9 (as the code has it). Translating the empty string never calls
  \<open>translator.translate\<close>. It returns the empty string when the translator for the
  target language can be built; when building it raises, \<open>translate_text\<close> raises that
  exception.
\<close>

theorem translate_text_empty:
  "snd (translate_text google_translator [] dest_language) = [] \<and>
   (\<forall>tr. google_translator dest_language = Inr tr \<longrightarrow>
      translate_text google_translator [] dest_language = (Inr [], [])) \<and>
   (\<forall>e. google_translator dest_language = Inl e \<longrightarrow>
      translate_text google_translator [] dest_language = (Inl e, []))"
  by (cases "google_translator dest_language")
    (simp_all add: translate_text_def chunks_def chunk_size_def range_step.simps)

text \<open>
  Both hypotheses of \<open>translate_text_empty\<close> occur: the example collaborator builds a
  translator for \<open>en\<close> and rejects \<open>zz\<close>.
\<close>

theorem translate_text_empty_witness:
  "example_google_translator ''en'' = Inr example_translator \<and>
   translate_text example_google_translator [] ''en'' = (Inr [], []) \<and>
   example_google_translator ''zz'' = Inl (LanguageNotSupported ''zz'') \<and>
   snd (translate_text example_google_translator [] ''zz'') = []"
proof -
  have h1: "example_google_translator ''en'' = Inr example_translator"
    by (simp add: example_google_translator_def)
  have h2: "example_google_translator ''zz'' = Inl (LanguageNotSupported ''zz'')"
    by (simp add: example_google_translator_def)
  from translate_text_empty [of example_google_translator "''en''"]
    translate_text_empty [of example_google_translator "''zz''"] h1 h2
  show ?thesis
    by simp
qed

text \<open>
  C9 as stated fails: for a target language the collaborator rejects, translating the
  empty string raises and returns no string.
\<close>

theorem translate_text_empty_counterexample:
  "translate_text example_google_translator [] ''zz'' = (Inl (LanguageNotSupported ''zz''), [])"
  by (simp add: translate_text_def example_google_translator_def)

section \<open>Facts about the parser\<close>

lemma startswith_iff: "startswith s p \<longleftrightarrow> (\<exists>r. s = p @ r)"
proof
  assume "startswith s p"
  then have "s = p @ drop (length p) s"
    unfolding startswith_def by (metis append_take_drop_id)
  then show "\<exists>r. s = p @ r" ..
next
  assume "\<exists>r. s = p @ r"
  then show "startswith s p"
    unfolding startswith_def by auto
qed

lemma startswith_drop: "startswith s p \<Longrightarrow> s = p @ drop (length p) s"
  unfolding startswith_def by (metis append_take_drop_id)

lemma split_not_Nil: "split s sep \<noteq> []"
  by (cases s) (auto split: list.splits)

lemma split_single_Cons:
  "split (c # cs) [d] =
     (if c = d then [] # split cs [d] else (c # hd (split cs [d])) # tl (split cs [d]))"
  using split_not_Nil [of cs "[d]"]
  by (cases "split cs [d]") (auto simp: startswith_def)

lemma split_single_hd: "hd (split s [d]) = takeWhile (\<lambda>c. c \<noteq> d) s"
  by (induction s) (simp_all add: split_single_Cons del: split.simps(2))

lemma split_single_append:
  "d \<notin> set a \<Longrightarrow> split (a @ d # b) [d] = a # split b [d]"
  by (induction a) (auto simp add: split_single_Cons simp del: split.simps(2))

lemma split_single_no_sep:
  "d \<notin> set a \<Longrightarrow> split a [d] = [a]"
  by (induction a) (auto simp add: split_single_Cons simp del: split.simps(2))

lemma split_join_single:
  "ls \<noteq> [] \<Longrightarrow> \<forall>l \<in> set ls. d \<notin> set l \<Longrightarrow> split (join [d] ls) [d] = ls"
proof (induction "[d]" ls rule: join.induct)
  case 1
  then show ?case by simp
next
  case (2 x)
  then show ?case by (simp add: split_single_no_sep del: split.simps(2))
next
  case (3 x y ys)
  then show ?case
    by (simp add: split_single_append del: split.simps(2))
qed

lemma parse_lines_append:
  "parse_lines st (a @ b) =
     (case parse_lines st a of Inl e \<Rightarrow> Inl e | Inr st' \<Rightarrow> parse_lines st' b)"
  by (induction a arbitrary: st) (auto split: sum.splits)


lemma answer_line_not_other:
  assumes "startswith line ''Correct Answer:''"
  shows "\<not> startswith line ''Q:''" and "\<not> is_option_line line"
proof -
  from assms obtain r where "line = ''Correct Answer:'' @ r"
    by (auto simp: startswith_iff)
  then show "\<not> startswith line ''Q:''" and "\<not> is_option_line line"
    by (simp_all add: startswith_def is_option_line_def)
qed

lemma answer_line_label:
  assumes "startswith line ''Correct Answer:''"
  shows "index (split line '':'') 1 = Inr (takeWhile (\<lambda>c. c \<noteq> CHR '':'') (drop 15 line))"
proof -
  from assms obtain r where line: "line = ''Correct Answer'' @ CHR '':'' # r"
    by (auto simp: startswith_iff)
  then have r: "drop 15 line = r"
    by simp
  have "split (''Correct Answer'' @ CHR '':'' # r) '':'' = ''Correct Answer'' # split r '':''"
    by (rule split_single_append) simp
  then have "index (split line '':'') 1 = Inr (hd (split r '':''))"
    using split_not_Nil [of r "'':''"] line
    by (cases "split r '':''") (simp_all add: index_def)
  then show ?thesis
    by (simp add: r split_single_hd)
qed

lemma q_line_not_option: "startswith line ''Q:'' \<Longrightarrow> \<not> is_option_line line"
  by (auto simp: startswith_iff is_option_line_def)

lemma parse_line_Q:
  "startswith (strip raw) ''Q:'' \<Longrightarrow>
   parse_line (qs, cur) raw =
     Inr (append_current (qs, cur),
          \<lparr>question = Some (strip (drop 2 (strip raw))), options = Some [], correct_answer = None\<rparr>)"
  by (simp add: parse_line_def)

lemma parse_line_option:
  "is_option_line (strip raw) \<Longrightarrow>
   parse_line (qs, cur) raw =
     (case options cur of
        None \<Rightarrow> Inl (KeyError ''options'')
      | Some opts \<Rightarrow> Inr (qs, cur\<lparr>options := Some (opts @ [strip raw])\<rparr>))"
  using q_line_not_option [of "strip raw"] by (auto simp: parse_line_def Let_def)

lemma parse_line_answer:
  assumes "startswith (strip raw) ''Correct Answer:''"
  shows "parse_line (qs, cur) raw =
     Inr (qs, cur\<lparr>correct_answer :=
            Some (strip (takeWhile (\<lambda>c. c \<noteq> CHR '':'') (drop 15 (strip raw))))\<rparr>)"
  using assms answer_line_not_other [OF assms] answer_line_label [OF assms]
  by (simp add: parse_line_def)

lemma parse_line_other:
  "\<not> startswith (strip raw) ''Q:'' \<Longrightarrow> \<not> is_option_line (strip raw) \<Longrightarrow>
   \<not> startswith (strip raw) ''Correct Answer:'' \<Longrightarrow>
   parse_line (qs, cur) raw = Inr (qs, cur)"
  by (simp add: parse_line_def)


lemma options_after_q_Cons:
  "options_after_q (l # ls) \<longleftrightarrow>
     startswith (strip l) ''Q:'' \<or> (\<not> is_option_line (strip l) \<and> options_after_q ls)"
proof (cases "startswith (strip l) ''Q:''")
  case True
  have "\<exists>j<i. startswith (strip ((l # ls) ! j)) ''Q:''"
    if "is_option_line (strip ((l # ls) ! i))" for i
  proof (cases i)
    case 0
    with that True show ?thesis by (simp add: q_line_not_option)
  next
    case (Suc k)
    with True show ?thesis by (intro exI [of _ 0]) simp
  qed
  with True show ?thesis
    by (simp add: options_after_q_def)
next
  case False
  show ?thesis
  proof
    assume a: "options_after_q (l # ls)"
    have "\<not> is_option_line (strip l)"
      using a by (auto simp: options_after_q_def)
    moreover have "options_after_q ls"
      unfolding options_after_q_def
    proof (intro allI impI)
      fix i assume i: "i < length ls" "is_option_line (strip (ls ! i))"
      with a obtain j where j: "j < Suc i" "startswith (strip ((l # ls) ! j)) ''Q:''"
        unfolding options_after_q_def by fastforce
      with False obtain k where "j = Suc k" by (cases j) auto
      with j show "\<exists>j<i. startswith (strip (ls ! j)) ''Q:''" by auto
    qed
    ultimately show "startswith (strip l) ''Q:'' \<or> (\<not> is_option_line (strip l) \<and> options_after_q ls)"
      by simp
  next
    assume "startswith (strip l) ''Q:'' \<or> (\<not> is_option_line (strip l) \<and> options_after_q ls)"
    with False have b: "\<not> is_option_line (strip l)" "options_after_q ls" by auto
    show "options_after_q (l # ls)"
      unfolding options_after_q_def
    proof (intro allI impI)
      fix i assume i: "i < length (l # ls)" "is_option_line (strip ((l # ls) ! i))"
      with b obtain k where k: "i = Suc k" by (cases i) auto
      with i b obtain j where "j < k" "startswith (strip (ls ! j)) ''Q:''"
        unfolding options_after_q_def by auto
      with k show "\<exists>j<i. startswith (strip ((l # ls) ! j)) ''Q:''"
        by (intro exI [of _ "Suc j"]) simp
    qed
  qed
qed

lemma parse_line_keeps_options:
  "options cur \<noteq> None \<Longrightarrow> \<exists>qs' cur'. parse_line (qs, cur) raw = Inr (qs', cur') \<and> options cur' \<noteq> None"
proof -
  assume o: "options cur \<noteq> None"
  consider (q) "startswith (strip raw) ''Q:''" | (opt) "is_option_line (strip raw)"
    | (ans) "startswith (strip raw) ''Correct Answer:''"
    | (other) "\<not> startswith (strip raw) ''Q:''" "\<not> is_option_line (strip raw)"
        "\<not> startswith (strip raw) ''Correct Answer:''"
    by blast
  then show ?thesis
  proof cases
    case q
    then show ?thesis by (simp add: parse_line_Q)
  next
    case opt
    with o show ?thesis by (auto simp: parse_line_option)
  next
    case ans
    with o show ?thesis by (simp add: parse_line_answer)
  next
    case other
    with o show ?thesis by (simp add: parse_line_other)
  qed
qed

lemma parse_lines_total:
  "options cur \<noteq> None \<or> options_after_q ls \<Longrightarrow> \<exists>st. parse_lines (qs, cur) ls = Inr st"
proof (induction ls arbitrary: qs cur)
  case Nil
  then show ?case by simp
next
  case (Cons l ls)
  show ?case
  proof (cases "options cur \<noteq> None")
    case True
    then obtain qs' cur' where "parse_line (qs, cur) l = Inr (qs', cur')" "options cur' \<noteq> None"
      using parse_line_keeps_options by blast
    with Cons.IH [of cur' qs'] show ?thesis by simp
  next
    case False
    with Cons.prems have oq: "options_after_q (l # ls)" by simp
    show ?thesis
    proof (cases "startswith (strip l) ''Q:''")
      case True
      then obtain qs' cur' where "parse_line (qs, cur) l = Inr (qs', cur')" "options cur' \<noteq> None"
        by (simp add: parse_line_Q)
      with Cons.IH [of cur' qs'] show ?thesis by simp
    next
      case notq: False
      with oq have no: "\<not> is_option_line (strip l)" and rest: "options_after_q ls"
        by (simp_all add: options_after_q_Cons)
      obtain cur' where "parse_line (qs, cur) l = Inr (qs, cur')"
        using notq no parse_line_answer [of l qs cur] parse_line_other [of l qs cur]
        by (cases "startswith (strip l) ''Correct Answer:''") auto
      with Cons.IH [of cur' qs] rest show ?thesis by simp
    qed
  qed
qed


lemma parse_line_no_options:
  assumes "options cur = None" "\<not> startswith (strip l) ''Q:''" "\<not> is_option_line (strip l)"
  shows "\<exists>cur'. parse_line (qs, cur) l = Inr (qs, cur') \<and> options cur' = None"
proof (cases "startswith (strip l) ''Correct Answer:''")
  case True
  with assms(1) show ?thesis by (simp add: parse_line_answer)
next
  case False
  with assms show ?thesis by (simp add: parse_line_other)
qed

lemma parse_lines_fails:
  "options cur = None \<Longrightarrow> \<not> options_after_q ls \<Longrightarrow>
   parse_lines (qs, cur) ls = Inl (KeyError ''options'')"
proof (induction ls arbitrary: cur)
  case Nil
  then show ?case by (simp add: options_after_q_def)
next
  case (Cons l ls)
  from Cons.prems(2) have notq: "\<not> startswith (strip l) ''Q:''"
    and alt: "is_option_line (strip l) \<or> \<not> options_after_q ls"
    by (simp_all add: options_after_q_Cons)
  show ?case
  proof (cases "is_option_line (strip l)")
    case True
    with Cons.prems(1) show ?thesis by (simp add: parse_line_option)
  next
    case False
    with alt have rest: "\<not> options_after_q ls" by simp
    from parse_line_no_options [OF Cons.prems(1) notq False]
    obtain cur' where "parse_line (qs, cur) l = Inr (qs, cur')" "options cur' = None"
      by blast
    with Cons.IH [OF _ rest, of cur'] show ?thesis by simp
  qed
qed

lemmas parser_eval =
  strip_def isspace_def whitespace_def startswith_def is_option_line_def newline_def
  index_def parse_line_def parse_mcqs_def append_current_def empty_mcq_def


section \<open>The parser claims\<close>

text \<open>
  C2 (as the code has it). At any point of the input, a line that (trimmed) begins with
  \<open>Q:\<close> appends the question being assembled to the output exactly when that dict is
  non-empty, whether or not it has a correct label, and starts a new question whose text
  is the trimmed remainder of the line after \<open>Q:\<close>, with no options yet.
\<close>

theorem parse_line_q:
  assumes "startswith (strip raw) ''Q:''"
      and "parse_lines st0 pre = Inr (qs, cur)"
  shows "parse_lines st0 (pre @ raw # rest) =
           parse_lines
             (if cur \<noteq> empty_mcq then qs @ [cur] else qs,
              \<lparr>question = Some (strip (drop 2 (strip raw))), options = Some [],
               correct_answer = None\<rparr>) rest"
  using assms by (simp add: parse_lines_append parse_line_Q append_current_def)

text \<open>The hypotheses of \<open>parse_line_q\<close> hold on the two lines \<open>Q: a\<close>, \<open>Q: b\<close>.\<close>

theorem parse_line_q_witness:
  "startswith (strip ''Q: b'') ''Q:'' \<and>
   parse_lines ([], empty_mcq) [''Q: a''] =
     Inr ([], \<lparr>question = Some ''a'', options = Some [], correct_answer = None\<rparr>) \<and>
   parse_lines ([], empty_mcq) ([''Q: a''] @ ''Q: b'' # []) =
     Inr ([\<lparr>question = Some ''a'', options = Some [], correct_answer = None\<rparr>],
          \<lparr>question = Some ''b'', options = Some [], correct_answer = None\<rparr>)"
proof -
  have h1: "startswith (strip ''Q: b'') ''Q:''"
    by (simp add: parser_eval)
  have h2: "parse_lines ([], empty_mcq) [''Q: a''] =
     Inr ([], \<lparr>question = Some ''a'', options = Some [], correct_answer = None\<rparr>)"
    by (simp add: parser_eval)
  from parse_line_q [OF h1 h2, of "[]"] h1 h2 show ?thesis
    by (simp add: parser_eval)
qed

text \<open>
  C2 as stated fails: on \<open>Q: a\<close> followed by \<open>Q: b\<close> the first question has no correct
  label when the second \<open>Q:\<close> line is read, and it is appended all the same.
\<close>

theorem parse_line_q_counterexample:
  "parse_mcqs (''Q: a'' @ newline @ ''Q: b'') =
     Inr [\<lparr>question = Some ''a'', options = Some [], correct_answer = None\<rparr>,
          \<lparr>question = Some ''b'', options = Some [], correct_answer = None\<rparr>] \<and>
   parse_line ([], \<lparr>question = Some ''a'', options = Some [], correct_answer = None\<rparr>) ''Q: b'' =
     Inr ([\<lparr>question = Some ''a'', options = Some [], correct_answer = None\<rparr>],
          \<lparr>question = Some ''b'', options = Some [], correct_answer = None\<rparr>)"
  by (simp add: parser_eval)

text \<open>
  C7 (as the code has it). At any point of the input, a line that (trimmed) begins with
  \<open>Correct Answer:\<close> sets the correct label of the question being assembled to the
  trimmed text between the first colon and the next colon of the line (up to the end of
  the line when there is no further colon).
\<close>

theorem parse_line_correct_answer:
  assumes "startswith (strip raw) ''Correct Answer:''"
      and "parse_lines st0 pre = Inr (qs, cur)"
  shows "parse_lines st0 (pre @ raw # rest) =
           parse_lines
             (qs,
              cur\<lparr>correct_answer :=
                Some (strip (takeWhile (\<lambda>c. c \<noteq> CHR '':'') (drop 15 (strip raw))))\<rparr>) rest"
  using assms by (simp add: parse_lines_append parse_line_answer)

text \<open>The hypotheses of \<open>parse_line_correct_answer\<close> hold on a concrete input.\<close>

theorem parse_line_correct_answer_witness:
  "startswith (strip ''Correct Answer: A: because'') ''Correct Answer:'' \<and>
   parse_lines ([], empty_mcq) [''Q: a''] =
     Inr ([], \<lparr>question = Some ''a'', options = Some [], correct_answer = None\<rparr>) \<and>
   parse_lines ([], empty_mcq) ([''Q: a''] @ ''Correct Answer: A: because'' # []) =
     Inr ([], \<lparr>question = Some ''a'', options = Some [], correct_answer = Some ''A''\<rparr>)"
proof -
  have h1: "startswith (strip ''Correct Answer: A: because'') ''Correct Answer:''"
    by (simp add: parser_eval)
  have h2: "parse_lines ([], empty_mcq) [''Q: a''] =
     Inr ([], \<lparr>question = Some ''a'', options = Some [], correct_answer = None\<rparr>)"
    by (simp add: parser_eval)
  from parse_line_correct_answer [OF h1 h2, of "[]"] h1 h2 show ?thesis
    by (simp add: parser_eval)
qed

text \<open>
  C7 as stated fails: on \<open>Correct Answer: A: because\<close> the label is \<open>A\<close>, not the
  whole trimmed text after the first colon, \<open>A: because\<close>.
\<close>

theorem parse_line_correct_answer_counterexample:
  "parse_line ([], \<lparr>question = Some ''a'', options = Some [], correct_answer = None\<rparr>)
     ''Correct Answer: A: because'' =
     Inr ([], \<lparr>question = Some ''a'', options = Some [], correct_answer = Some ''A''\<rparr>) \<and>
   strip (text_after_first_colon_spec ''Correct Answer: A: because'') = ''A: because'' \<and>
   ''A'' \<noteq> ''A: because''"
  by (simp add: parser_eval text_after_first_colon_spec_def)

text \<open>
  C10. \<open>parse_mcqs\<close> is not total: on the text \<open>A) x\<close>, an option line before any
  \<open>Q:\<close> line, it raises \<open>KeyError\<close> on the key \<open>options\<close>. When every option line
  comes after some \<open>Q:\<close> line, it returns normally; and when some option line does not,
  it raises that \<open>KeyError\<close>.
\<close>

theorem parse_mcqs_totality:
  "parse_mcqs ''A) x'' = Inl (KeyError ''options'') \<and>
   (options_after_q (split text newline) \<longrightarrow> (\<exists>qs. parse_mcqs text = Inr qs)) \<and>
   (\<not> options_after_q (split text newline) \<longrightarrow> parse_mcqs text = Inl (KeyError ''options''))"
proof (intro conjI impI)
  show "parse_mcqs ''A) x'' = Inl (KeyError ''options'')"
    by (simp add: parser_eval)
next
  assume "options_after_q (split text newline)"
  then obtain st where "parse_lines ([], empty_mcq) (split text newline) = Inr st"
    using parse_lines_total by blast
  then show "\<exists>qs. parse_mcqs text = Inr qs"
    by (simp add: parse_mcqs_def)
next
  assume "\<not> options_after_q (split text newline)"
  then have "parse_lines ([], empty_mcq) (split text newline) = Inl (KeyError ''options'')"
    by (intro parse_lines_fails) (simp_all add: empty_mcq_def)
  then show "parse_mcqs text = Inl (KeyError ''options'')"
    by (simp add: parse_mcqs_def)
qed

text \<open>
  The precondition of \<open>parse_mcqs_totality\<close> holds on \<open>Q: a\<close>, \<open>A) x\<close> and fails on
  \<open>A) x\<close> alone.
\<close>

theorem parse_mcqs_totality_witness:
  "options_after_q (split (''Q: a'' @ newline @ ''A) x'') newline) \<and>
   (\<exists>qs. parse_mcqs (''Q: a'' @ newline @ ''A) x'') = Inr qs) \<and>
   \<not> options_after_q (split ''A) x'' newline) \<and>
   parse_mcqs ''A) x'' = Inl (KeyError ''options'')"
proof -
  have h1: "options_after_q (split (''Q: a'' @ newline @ ''A) x'') newline)"
    by (simp add: options_after_q_Cons parser_eval)
  have h2: "\<not> options_after_q (split ''A) x'' newline)"
    by (simp add: options_after_q_Cons parser_eval options_after_q_def)
  from parse_mcqs_totality [of "''Q: a'' @ newline @ ''A) x''"]
    parse_mcqs_totality [of "''A) x''"] h1 h2
  show ?thesis
    by blast
qed


section \<open>Trimmed lines and formatted questions\<close>

lemma dropWhile_length_self:
  "length (dropWhile P xs) = length xs \<Longrightarrow> dropWhile P xs = xs"
proof (cases xs)
  case Nil
  then show ?thesis by simp
next
  case (Cons x ys)
  assume len: "length (dropWhile P xs) = length xs"
  have "\<not> P x"
  proof
    assume "P x"
    with Cons have "length (dropWhile P xs) \<le> length ys"
      by (simp add: length_dropWhile_le)
    with len Cons show False by simp
  qed
  with Cons show ?thesis by simp
qed

lemma strip_self_iff:
  "strip s = s \<longleftrightarrow> s = [] \<or> (\<not> isspace (hd s) \<and> \<not> isspace (last s))"
proof (cases "s = []")
  case True
  then show ?thesis by (simp add: strip_def)
next
  case False
  show ?thesis
  proof
    assume eq: "strip s = s"
    have l1: "length (dropWhile isspace s) \<le> length s"
      by (rule length_dropWhile_le)
    have l2: "length (strip s) \<le> length (dropWhile isspace s)"
      unfolding strip_def using length_dropWhile_le [of isspace "rev (dropWhile isspace s)"] by simp
    from eq l1 l2 have "length (dropWhile isspace s) = length s" by simp
    then have d: "dropWhile isspace s = s"
      by (rule dropWhile_length_self)
    with eq have "rev (dropWhile isspace (rev s)) = s"
      by (simp add: strip_def)
    then have "dropWhile isspace (rev s) = rev s"
      by (metis rev_rev_ident)
    with False have "\<not> isspace (hd (rev s))"
      by (simp add: dropWhile_eq_self_iff)
    moreover from d False have "\<not> isspace (hd s)"
      by (simp add: dropWhile_eq_self_iff)
    ultimately show "s = [] \<or> (\<not> isspace (hd s) \<and> \<not> isspace (last s))"
      by (simp add: hd_rev)
  next
    assume "s = [] \<or> (\<not> isspace (hd s) \<and> \<not> isspace (last s))"
    with False have h: "\<not> isspace (hd s)" "\<not> isspace (last s)" by auto
    from h(1) have "dropWhile isspace s = s"
      by (simp add: dropWhile_eq_self_iff)
    moreover from h(2) have "dropWhile isspace (rev s) = rev s"
      by (simp add: dropWhile_eq_self_iff hd_rev)
    ultimately show "strip s = s" by (simp add: strip_def)
  qed
qed

lemma strip_space_Cons: "isspace c \<Longrightarrow> strip (c # s) = strip s"
  by (simp add: strip_def)

lemma space_is_space: "isspace (CHR '' '')"
  by (simp add: isspace_def whitespace_def)

lemma trimmed_question_line:
  assumes "strip t = t"
  shows "startswith (strip (''Q: '' @ t)) ''Q:'' \<and> strip (drop 2 (strip (''Q: '' @ t))) = t"
proof (cases "t = []")
  case True
  then show ?thesis
    by (simp add: strip_def startswith_def isspace_def whitespace_def)
next
  case False
  with assms have nl: "\<not> isspace (last t)"
    by (simp add: strip_self_iff)
  have "\<not> isspace (hd (''Q: '' @ t))"
    by (simp add: isspace_def whitespace_def)
  moreover from False nl have "\<not> isspace (last (''Q: '' @ t))"
    by simp
  ultimately have "strip (''Q: '' @ t) = ''Q: '' @ t"
    by (simp add: strip_self_iff)
  then show ?thesis
    using assms by (simp add: startswith_def strip_space_Cons space_is_space)
qed

lemma label_answer_line:
  assumes "l \<in> {''A'', ''B'', ''C'', ''D''}"
  shows "strip (''Correct Answer: '' @ l) = ''Correct Answer: '' @ l"
    and "strip (takeWhile (\<lambda>c. c \<noteq> CHR '':'') (drop 15 (''Correct Answer: '' @ l))) = l"
  using assms by (auto simp: strip_def isspace_def whitespace_def)

lemma parse_lines_options:
  assumes "\<forall>l \<in> set ls. strip l = l \<and> is_option_line l"
  shows "parse_lines (qs, cur\<lparr>options := Some acc\<rparr>) ls =
           Inr (qs, cur\<lparr>options := Some (acc @ ls)\<rparr>)"
  using assms
proof (induction ls arbitrary: acc)
  case Nil
  then show ?case by simp
next
  case (Cons l ls)
  then have "parse_line (qs, cur\<lparr>options := Some acc\<rparr>) l =
      Inr (qs, cur\<lparr>options := Some (acc @ [l])\<rparr>)"
    by (simp add: parse_line_option)
  with Cons.IH [of "acc @ [l]"] Cons.prems show ?case
    by simp
qed

lemma mcq_of_not_empty: "mcq_of k \<noteq> empty_mcq"
  by (cases k) (simp add: mcq_of_def empty_mcq_def)

lemma parse_lines_block:
  assumes "well_formed k" "trimmed_question k"
  shows "parse_lines (qs, cur) (format_question k @ rest) =
           parse_lines (append_current (qs, cur), mcq_of k) rest"
proof -
  obtain t opts l where k: "k = (t, opts, l)"
    by (cases k)
  from assms k have t: "strip t = t"
    and opts: "\<forall>opt \<in> set opts. strip opt = opt \<and> is_option_line opt"
    and l: "l \<in> {''A'', ''B'', ''C'', ''D''}"
    by (auto simp: well_formed_def trimmed_question_def trimmed_line_def)
  let ?q0 = "\<lparr>question = Some t, options = Some [], correct_answer = None\<rparr>"
  have 1: "parse_line (qs, cur) (''Q: '' @ t) = Inr (append_current (qs, cur), ?q0)"
    using trimmed_question_line [OF t] by (simp add: parse_line_Q)
  have 2: "parse_lines (append_current (qs, cur), ?q0) opts =
      Inr (append_current (qs, cur), ?q0\<lparr>options := Some opts\<rparr>)"
    using parse_lines_options [OF opts, where qs = "append_current (qs, cur)" and cur = ?q0 and acc = "[]"]
    by simp
  have 3: "parse_line (append_current (qs, cur), ?q0\<lparr>options := Some opts\<rparr>)
      (''Correct Answer: '' @ l) = Inr (append_current (qs, cur), mcq_of k)"
  proof -
    have s: "strip (''Correct Answer: '' @ l) = ''Correct Answer: '' @ l"
      using l by (rule label_answer_line(1))
    then have "startswith (strip (''Correct Answer: '' @ l)) ''Correct Answer:''"
      by (simp add: startswith_def)
    then show ?thesis
      using label_answer_line(2) [OF l]
      by (simp only: parse_line_answer s) (simp add: mcq_of_def k)
  qed
  have "format_question k @ rest = (''Q: '' @ t) # (opts @ (''Correct Answer: '' @ l) # rest)"
    by (simp add: format_question_def k)
  then show ?thesis
    using 1 2 3 by (simp add: parse_lines_append)
qed

lemma parse_lines_blocks:
  assumes "\<forall>k \<in> set ks. well_formed k \<and> trimmed_question k"
  shows "\<exists>st. parse_lines (qs, cur) (concat (map format_question ks)) = Inr st \<and>
           append_current st = append_current (qs, cur) @ map mcq_of ks"
  using assms
proof (induction ks arbitrary: qs cur)
  case Nil
  then show ?case by simp
next
  case (Cons k ks)
  then have wf: "well_formed k" "trimmed_question k"
    and rest: "\<forall>k \<in> set ks. well_formed k \<and> trimmed_question k"
    by simp_all
  from Cons.IH [OF rest, where qs = "append_current (qs, cur)" and cur = "mcq_of k"]
  obtain st where st: "parse_lines (append_current (qs, cur), mcq_of k)
        (concat (map format_question ks)) = Inr st"
      "append_current st = append_current (append_current (qs, cur), mcq_of k) @ map mcq_of ks"
    by blast
  have "parse_lines (qs, cur) (concat (map format_question (k # ks))) = Inr st"
    using parse_lines_block [OF wf] st(1) by simp
  moreover have "append_current st = append_current (qs, cur) @ map mcq_of (k # ks)"
    using st(2) mcq_of_not_empty [of k] by (simp add: append_current_def)
  ultimately show ?case by blast
qed

lemma format_question_lines:
  assumes "well_formed k" "trimmed_question k"
  shows "\<forall>l \<in> set (format_question k). CHR 0x0A \<notin> set l"
proof -
  obtain t opts l where k: "k = (t, opts, l)"
    by (cases k)
  with assms show ?thesis
    by (auto simp: well_formed_def trimmed_question_def trimmed_line_def format_question_def)
qed

lemma parse_lines_trailing:
  assumes "\<forall>l \<in> set tr. \<not> startswith (strip l) ''Q:'' \<and> \<not> startswith (strip l) ''Correct Answer:''"
  shows "parse_lines (qs, cur\<lparr>options := Some acc\<rparr>) tr =
           Inr (qs, cur\<lparr>options := Some (acc @ filter is_option_line (map strip tr))\<rparr>)"
  using assms
proof (induction tr arbitrary: acc)
  case Nil
  then show ?case by simp
next
  case (Cons l tr)
  show ?case
  proof (cases "is_option_line (strip l)")
    case True
    then have "parse_line (qs, cur\<lparr>options := Some acc\<rparr>) l =
        Inr (qs, cur\<lparr>options := Some (acc @ [strip l])\<rparr>)"
      by (simp add: parse_line_option)
    with Cons.IH [of "acc @ [strip l]"] Cons.prems True show ?thesis
      by simp
  next
    case False
    with Cons.prems have "parse_line (qs, cur\<lparr>options := Some acc\<rparr>) l =
        Inr (qs, cur\<lparr>options := Some acc\<rparr>)"
      by (simp add: parse_line_other)
    with Cons.IH [of acc] Cons.prems False show ?thesis
      by simp
  qed
qed

section \<open>Round trip and end of input\<close>

text \<open>
  C6 (as the code has it). For every sequence of well-formed questions whose texts and
  option lines are single lines without leading or trailing whitespace, parsing the text
  that writes them in the grammar returns normally with exactly these questions, in
  order: each question text, each list of option lines (whole lines, in the order
  written, not sorted by label) and each label is reproduced unchanged.
\<close>

theorem parse_format_roundtrip:
  assumes "\<forall>k \<in> set ks. well_formed k \<and> trimmed_question k"
  shows "parse_mcqs (format_questions ks) = Inr (map mcq_of ks)"
proof (cases "ks = []")
  case True
  then show ?thesis
    by (simp add: format_questions_def parser_eval)
next
  case False
  let ?ls = "concat (map format_question ks)"
  from False obtain k ks' where "ks = k # ks'" by (cases ks) auto
  then have ne: "?ls \<noteq> []"
    by (cases k) (simp add: format_question_def)
  have "\<forall>l \<in> set ?ls. CHR 0x0A \<notin> set l"
    using assms format_question_lines by auto
  with ne have "split (format_questions ks) newline = ?ls"
    unfolding format_questions_def newline_def by (rule split_join_single)
  moreover obtain st where "parse_lines ([], empty_mcq) ?ls = Inr st"
      "append_current st = append_current ([], empty_mcq) @ map mcq_of ks"
    using parse_lines_blocks [OF assms] by blast
  ultimately show ?thesis
    by (simp add: parse_mcqs_def append_current_def)
qed

text \<open>
  The hypothesis of \<open>parse_format_roundtrip\<close> holds for two questions, the first with
  its option lines out of label order.
\<close>

theorem parse_format_roundtrip_witness:
  "well_formed (''What is x?'', [''B) two'', ''A) one'', ''C) three'', ''D) four''], ''B'') \<and>
   trimmed_question (''What is x?'', [''B) two'', ''A) one'', ''C) three'', ''D) four''], ''B'') \<and>
   well_formed (''Why?'', [''A) a'', ''B) b'', ''C) c'', ''D) d''], ''D'') \<and>
   trimmed_question (''Why?'', [''A) a'', ''B) b'', ''C) c'', ''D) d''], ''D'') \<and>
   parse_mcqs (format_questions
      [(''What is x?'', [''B) two'', ''A) one'', ''C) three'', ''D) four''], ''B''),
       (''Why?'', [''A) a'', ''B) b'', ''C) c'', ''D) d''], ''D'')]) =
     Inr [\<lparr>question = Some ''What is x?'',
           options = Some [''B) two'', ''A) one'', ''C) three'', ''D) four''],
           correct_answer = Some ''B''\<rparr>,
          \<lparr>question = Some ''Why?'', options = Some [''A) a'', ''B) b'', ''C) c'', ''D) d''],
           correct_answer = Some ''D''\<rparr>]"
proof -
  have h1: "well_formed (''What is x?'', [''B) two'', ''A) one'', ''C) three'', ''D) four''], ''B'')"
    "trimmed_question (''What is x?'', [''B) two'', ''A) one'', ''C) three'', ''D) four''], ''B'')"
    by (simp_all add: well_formed_def trimmed_question_def trimmed_line_def parser_eval)
  have h2: "well_formed (''Why?'', [''A) a'', ''B) b'', ''C) c'', ''D) d''], ''D'')"
    "trimmed_question (''Why?'', [''A) a'', ''B) b'', ''C) c'', ''D) d''], ''D'')"
    by (simp_all add: well_formed_def trimmed_question_def trimmed_line_def parser_eval)
  from h1 h2
  have h: "\<forall>k \<in> set [(''What is x?'', [''B) two'', ''A) one'', ''C) three'', ''D) four''], ''B''),
               (''Why?'', [''A) a'', ''B) b'', ''C) c'', ''D) d''], ''D'')].
             well_formed k \<and> trimmed_question k"
    by simp
  from parse_format_roundtrip [OF h] h1 h2 show ?thesis
    by (simp add: mcq_of_def)
qed

text \<open>
  C6 as stated fails: a well-formed question whose text ends with a space comes back
  without the space, and one whose text contains a newline comes back cut at the
  newline.
\<close>

theorem parse_format_roundtrip_counterexample:
  "well_formed (''What is x? '', [''A) one'', ''B) two'', ''C) three'', ''D) four''], ''B'') \<and>
   parse_mcqs (format_questions
      [(''What is x? '', [''A) one'', ''B) two'', ''C) three'', ''D) four''], ''B'')]) =
     Inr [\<lparr>question = Some ''What is x?'',
           options = Some [''A) one'', ''B) two'', ''C) three'', ''D) four''],
           correct_answer = Some ''B''\<rparr>] \<and>
   ''What is x?'' \<noteq> ''What is x? '' \<and>
   well_formed (''a'' @ newline @ ''b'', [''A) one'', ''B) two'', ''C) three'', ''D) four''], ''B'') \<and>
   parse_mcqs (format_questions
      [(''a'' @ newline @ ''b'', [''A) one'', ''B) two'', ''C) three'', ''D) four''], ''B'')]) =
     Inr [\<lparr>question = Some ''a'',
           options = Some [''A) one'', ''B) two'', ''C) three'', ''D) four''],
           correct_answer = Some ''B''\<rparr>] \<and>
   ''a'' \<noteq> ''a'' @ newline @ ''b''"
  by (simp add: well_formed_def format_questions_def format_question_def parser_eval)

text \<open>
  C8. When the input ends with a \<open>Q:\<close> line followed only by option lines and ignored
  lines (no \<open>Correct Answer:\<close> line), that trailing question is appended to the output
  with its options and without a correct label. In general, whenever the loop ends with
  a non-empty question in progress, \<open>parse_mcqs\<close> returns the questions so far followed
  by that question.
\<close>

theorem parse_mcqs_trailing_question:
  assumes "parse_lines ([], empty_mcq) pre = Inr st"
      and "startswith (strip ql) ''Q:''"
      and "\<forall>l \<in> set trailing.
             \<not> startswith (strip l) ''Q:'' \<and> \<not> startswith (strip l) ''Correct Answer:''"
      and "\<forall>l \<in> set (pre @ ql # trailing). CHR 0x0A \<notin> set l"
  shows "parse_mcqs (join newline (pre @ ql # trailing)) =
           Inr (append_current st @
                [\<lparr>question = Some (strip (drop 2 (strip ql))),
                  options = Some (filter is_option_line (map strip trailing)),
                  correct_answer = None\<rparr>]) \<and>
         (\<forall>qs cur. parse_lines ([], empty_mcq) (split text newline) = Inr (qs, cur) \<and>
              cur \<noteq> empty_mcq \<longrightarrow> parse_mcqs text = Inr (qs @ [cur]))"
proof
  let ?q0 = "\<lparr>question = Some (strip (drop 2 (strip ql))), options = None, correct_answer = None\<rparr>"
  obtain qs cur where st: "st = (qs, cur)"
    by (cases st)
  have "split (join newline (pre @ ql # trailing)) newline = pre @ ql # trailing"
    unfolding newline_def using assms(4) by (intro split_join_single) simp_all
  moreover have "parse_lines ([], empty_mcq) (pre @ ql # trailing) =
      parse_lines (append_current st, ?q0\<lparr>options := Some []\<rparr>) trailing"
    using assms(1,2) st by (simp add: parse_lines_append parse_line_Q)
  moreover have "parse_lines (append_current st, ?q0\<lparr>options := Some []\<rparr>) trailing =
      Inr (append_current st,
           ?q0\<lparr>options := Some ([] @ filter is_option_line (map strip trailing))\<rparr>)"
    using assms(3) by (rule parse_lines_trailing)
  ultimately show "parse_mcqs (join newline (pre @ ql # trailing)) =
           Inr (append_current st @
                [\<lparr>question = Some (strip (drop 2 (strip ql))),
                  options = Some (filter is_option_line (map strip trailing)),
                  correct_answer = None\<rparr>])"
    by (simp add: parse_mcqs_def append_current_def empty_mcq_def)
next
  show "\<forall>qs cur. parse_lines ([], empty_mcq) (split text newline) = Inr (qs, cur) \<and>
              cur \<noteq> empty_mcq \<longrightarrow> parse_mcqs text = Inr (qs @ [cur])"
    by (simp add: parse_mcqs_def append_current_def)
qed

text \<open>The hypotheses of \<open>parse_mcqs_trailing_question\<close> hold on concrete inputs.\<close>

theorem parse_mcqs_trailing_question_witness:
  "parse_lines ([], empty_mcq) [''Q: a'', ''Correct Answer: A''] =
     Inr ([], \<lparr>question = Some ''a'', options = Some [], correct_answer = Some ''A''\<rparr>) \<and>
   startswith (strip ''Q: b'') ''Q:'' \<and>
   \<not> startswith (strip ''A) x'') ''Q:'' \<and> \<not> startswith (strip ''A) x'') ''Correct Answer:'' \<and>
   \<not> startswith (strip ''B) y'') ''Q:'' \<and> \<not> startswith (strip ''B) y'') ''Correct Answer:'' \<and>
   parse_lines ([], empty_mcq) (split ''Q: b'' newline) =
     Inr ([], \<lparr>question = Some ''b'', options = Some [], correct_answer = None\<rparr>) \<and>
   \<lparr>question = Some ''b'', options = Some [], correct_answer = None\<rparr> \<noteq> empty_mcq \<and>
   parse_mcqs ''Q: b'' = Inr [\<lparr>question = Some ''b'', options = Some [], correct_answer = None\<rparr>] \<and>
   parse_mcqs (join newline ([''Q: a'', ''Correct Answer: A''] @ ''Q: b'' # [''A) x'', ''B) y''])) =
     Inr [\<lparr>question = Some ''a'', options = Some [], correct_answer = Some ''A''\<rparr>,
          \<lparr>question = Some ''b'', options = Some [''A) x'', ''B) y''], correct_answer = None\<rparr>]"
proof -
  have h1: "parse_lines ([], empty_mcq) [''Q: a'', ''Correct Answer: A''] =
     Inr ([], \<lparr>question = Some ''a'', options = Some [], correct_answer = Some ''A''\<rparr>)"
    by (simp add: parser_eval)
  have h2: "startswith (strip ''Q: b'') ''Q:''"
    by (simp add: parser_eval)
  have h3: "\<forall>l \<in> set [''A) x'', ''B) y''].
      \<not> startswith (strip l) ''Q:'' \<and> \<not> startswith (strip l) ''Correct Answer:''"
    by (simp add: parser_eval)
  have h4: "\<forall>l \<in> set ([''Q: a'', ''Correct Answer: A''] @ ''Q: b'' # [''A) x'', ''B) y'']).
      CHR 0x0A \<notin> set l"
    by simp
  have h5: "parse_lines ([], empty_mcq) (split ''Q: b'' newline) =
     Inr ([], \<lparr>question = Some ''b'', options = Some [], correct_answer = None\<rparr>)"
    by (simp add: parser_eval)
  have h6: "\<lparr>question = Some ''b'', options = Some [], correct_answer = None\<rparr> \<noteq> empty_mcq"
    by (simp add: empty_mcq_def)
  from parse_mcqs_trailing_question [OF h1 h2 h3 h4, of "''Q: b''"] h1 h2 h3 h4 h5 h6
  show ?thesis
    by (simp add: parser_eval)
qed


section \<open>Facts about the session\<close>

lemmas session_eval =
  truthy_def radio_def option_text_def correct_text_def score_question_def score_def
  display_mcqs_def store_questions_def generate_run_def reset_state_def index_def
  startswith_def

lemma score_question_resolved:
  assumes "question q \<noteq> None" "correct_answer q = Some c" "correct_text q c = Inr (Some d)"
      and "i < length a"
  shows "score_question q (Some a) i =
           Inr (if truthy (a ! i) then (if a ! i = Some d then Correct else Incorrect d)
                else Unanswered)"
  using assms by (auto simp: score_question_def index_def)



text \<open>
  For an option line \<open>X) t\<close> whose text \<open>t\<close> contains no further \<open>) \<close>, the text shown
  and scored is \<open>t\<close>, the text after the marker.
\<close>

lemma split_no_separator:
  "\<forall>i. \<not> startswith (drop i t) sep \<Longrightarrow> split t sep = [t]"
proof (induction t)
  case Nil
  then show ?case by simp
next
  case (Cons x xs)
  have "\<not> startswith (drop (Suc i) (x # xs)) sep" for i
    using Cons.prems by blast
  then have "split xs sep = [xs]"
    using Cons.IH by simp
  moreover have "\<not> startswith (x # xs) sep"
    using Cons.prems [rule_format, of 0] by simp
  ultimately show ?case by simp
qed

lemma option_text_marker:
  assumes "c \<noteq> CHR '')''" and "\<forall>i. \<not> startswith (drop i t) '') ''"
  shows "option_text (c # '') '' @ t) = Inr t"
    and "option_text (c # '') '' @ t) = Inr (display_text_spec (c # '') '' @ t))"
proof -
  have "split t '') '' = [t]"
    using assms(2) by (rule split_no_separator)
  then have "split (c # '') '' @ t) '') '' = [[c], t]"
    using assms(1) by (simp add: startswith_def)
  then show "option_text (c # '') '' @ t) = Inr t"
    by (simp add: option_text_def index_def)
  then show "option_text (c # '') '' @ t) = Inr (display_text_spec (c # '') '' @ t))"
    by (simp add: display_text_spec_def)
qed










text \<open>
  When every correct option resolves, the three answers of the scenario (the first equal
  to the text scored for its correct option, the second a different text, the third
  \<open>None\<close>) give one correct, one wrong and one unanswered question.
\<close>

lemma score_three_questions:
  assumes "question q1 \<noteq> None" "correct_answer q1 = Some c1" "options q1 = Some opts1"
          "find (\<lambda>opt. startswith opt c1) opts1 = Some o1" "option_text o1 = Inr d1"
      and "question q2 \<noteq> None" "correct_answer q2 = Some c2" "options q2 = Some opts2"
          "find (\<lambda>opt. startswith opt c2) opts2 = Some o2" "option_text o2 = Inr d2"
      and "question q3 \<noteq> None" "correct_answer q3 = Some c3" "options q3 = Some opts3"
          "find (\<lambda>opt. startswith opt c3) opts3 = Some o3" "option_text o3 = Inr d3"
      and "d1 \<noteq> []" "s2 \<noteq> d2" "s2 \<noteq> []"
  shows "score [q1, q2, q3] (Some [Some d1, Some s2, None]) =
           Inr \<lparr>correct_count = 1, total_questions = 3,
                outcomes = [Correct, Incorrect d2, Unanswered]\<rparr>"
proof -
  let ?a = "[Some d1, Some s2, None]"
  have t: "correct_text q1 c1 = Inr (Some d1)" "correct_text q2 c2 = Inr (Some d2)"
    "correct_text q3 c3 = Inr (Some d3)"
    using assms by (simp_all add: correct_text_def)
  have 1: "score_question q1 (Some ?a) 0 = Inr Correct"
    using assms t score_question_resolved [of q1 c1 d1 0 ?a] by (simp add: truthy_def)
  have 2: "score_question q2 (Some ?a) (Suc 0) = Inr (Incorrect d2)"
    using assms t score_question_resolved [of q2 c2 d2 "Suc 0" ?a] by (simp add: truthy_def)
  have 3: "score_question q3 (Some ?a) (Suc (Suc 0)) = Inr Unanswered"
    using assms t score_question_resolved [of q3 c3 d3 "Suc (Suc 0)" ?a] by (simp add: truthy_def)
  show ?thesis
    by (simp add: score_def 1 2 3)
qed

text \<open>
  When no correct option has a further \<open>) \<close> in its text, the text scored is the text
  after the marker, and the scenario is scored as stated with that text.
\<close>

lemma score_three_questions_plain:
  assumes "question q1 \<noteq> None" "correct_answer q1 = Some c1" "options q1 = Some opts1"
          "find (\<lambda>opt. startswith opt c1) opts1 = Some (m1 # '') '' @ t1)"
          "m1 \<noteq> CHR '')''" "\<forall>i. \<not> startswith (drop i t1) '') ''"
      and "question q2 \<noteq> None" "correct_answer q2 = Some c2" "options q2 = Some opts2"
          "find (\<lambda>opt. startswith opt c2) opts2 = Some (m2 # '') '' @ t2)"
          "m2 \<noteq> CHR '')''" "\<forall>i. \<not> startswith (drop i t2) '') ''"
      and "question q3 \<noteq> None" "correct_answer q3 = Some c3" "options q3 = Some opts3"
          "find (\<lambda>opt. startswith opt c3) opts3 = Some (m3 # '') '' @ t3)"
          "m3 \<noteq> CHR '')''" "\<forall>i. \<not> startswith (drop i t3) '') ''"
      and "display_text_spec (m1 # '') '' @ t1) \<noteq> []"
          "s2 \<noteq> display_text_spec (m2 # '') '' @ t2)" "s2 \<noteq> []"
  shows "score [q1, q2, q3] (Some [Some (display_text_spec (m1 # '') '' @ t1)), Some s2, None]) =
           Inr \<lparr>correct_count = 1, total_questions = 3,
                outcomes = [Correct, Incorrect (display_text_spec (m2 # '') '' @ t2)),
                            Unanswered]\<rparr>"
proof -
  have 1: "option_text (m1 # '') '' @ t1) = Inr (display_text_spec (m1 # '') '' @ t1))"
    using assms(5,6) by (rule option_text_marker(2))
  have 2: "option_text (m2 # '') '' @ t2) = Inr (display_text_spec (m2 # '') '' @ t2))"
    using assms(11,12) by (rule option_text_marker(2))
  have 3: "option_text (m3 # '') '' @ t3) = Inr (display_text_spec (m3 # '') '' @ t3))"
    using assms(17,18) by (rule option_text_marker(2))
  show ?thesis
    using assms(1-4) 1 assms(7-10) 2 assms(13-16) 3 assms(19-21)
    by (rule score_three_questions)
qed

section \<open>The session claims\<close>

text \<open>
  C1, where the code departs from it. The second question has the options
  \<open>A) f(x) is even\<close> and \<open>B) f(x) is odd\<close>, and its correct label is \<open>B\<close>. Both
  options are shown and scored as \<open>f(x\<close>, because \<open>split(') ')[1]\<close> ends at the second
  \<open>) \<close>. The user answers the first question correctly, picks option \<open>A\<close> of the second
  and leaves the third unanswered; the whole run returns normally, the pick is scored
  correct, and \<open>correct_count\<close> is 2 with the outcomes correct, correct, unanswered. The
  text after the marker of the correct option, \<open>f(x) is odd\<close>, is not the selected text.
\<close>

theorem score_truncated_option_text:
  "display_mcqs
     \<lparr>selections = [Some ''red'', Some ''f(x'', None], submit_answers = True,
      start_again = False\<rparr>
     \<lparr>questions = Some
        [\<lparr>question = Some ''Colour?'',
          options = Some [''A) red'', ''B) blue'', ''C) green'', ''D) grey''],
          correct_answer = Some ''A''\<rparr>,
         \<lparr>question = Some ''Parity?'',
          options = Some [''A) f(x) is even'', ''B) f(x) is odd'', ''C) both'', ''D) neither''],
          correct_answer = Some ''B''\<rparr>,
         \<lparr>question = Some ''Size?'',
          options = Some [''A) big'', ''B) small'', ''C) tiny'', ''D) huge''],
          correct_answer = Some ''D''\<rparr>],
      answers = Some [Some [], Some [], Some []], submitted = False\<rparr> =
   Inr (\<lparr>questions = Some
          [\<lparr>question = Some ''Colour?'',
            options = Some [''A) red'', ''B) blue'', ''C) green'', ''D) grey''],
            correct_answer = Some ''A''\<rparr>,
           \<lparr>question = Some ''Parity?'',
            options = Some [''A) f(x) is even'', ''B) f(x) is odd'', ''C) both'', ''D) neither''],
            correct_answer = Some ''B''\<rparr>,
           \<lparr>question = Some ''Size?'',
            options = Some [''A) big'', ''B) small'', ''C) tiny'', ''D) huge''],
            correct_answer = Some ''D''\<rparr>],
         answers = Some [Some ''red'', Some ''f(x'', None], submitted = True\<rparr>,
        Some \<lparr>correct_count = 2, total_questions = 3,
              outcomes = [Correct, Correct, Unanswered]\<rparr>) \<and>
   option_text ''A) f(x) is even'' = Inr ''f(x'' \<and>
   option_text ''B) f(x) is odd'' = Inr ''f(x'' \<and>
   display_text_spec ''A) f(x) is even'' = ''f(x) is even'' \<and>
   display_text_spec ''B) f(x) is odd'' = ''f(x) is odd'' \<and>
   display_text_spec ''A) red'' = ''red'' \<and>
   ''f(x'' \<noteq> ''f(x) is odd''"
  by (simp add: session_eval display_text_spec_def)

text \<open>
  C3 (as the code has it). When the parser yields no question from the generated text,
  the run does not fail: it stores an empty list of questions and an empty list of
  answers, clears \<open>submitted\<close>, and shows no quiz and no score.
\<close>

theorem generate_run_empty:
  assumes "parse_mcqs mcqs_text = Inr []"
  shows "generate_run inp mcqs_text s =
           Inr (s\<lparr>questions := Some [], answers := Some [], submitted := False\<rparr>, None)"
  using assms by (simp add: generate_run_def store_questions_def)

text \<open>The hypothesis of \<open>generate_run_empty\<close> holds for the empty text.\<close>

theorem generate_run_empty_witness:
  "parse_mcqs [] = Inr [] \<and>
   generate_run \<lparr>selections = [], submit_answers = False, start_again = False\<rparr> []
     \<lparr>questions = None, answers = None, submitted = True\<rparr> =
     Inr (\<lparr>questions = Some [], answers = Some [], submitted = False\<rparr>, None)"
proof -
  have h: "parse_mcqs [] = Inr []"
    by (simp add: parser_eval)
  from generate_run_empty [OF h] h show ?thesis
    by simp
qed

text \<open>
  C3 as stated fails: on the empty text the run returns normally, with a session of zero
  questions.
\<close>

theorem generate_run_empty_counterexample:
  "generate_run \<lparr>selections = [], submit_answers = False, start_again = False\<rparr> []
     \<lparr>questions = None, answers = None, submitted = False\<rparr> =
     Inr (\<lparr>questions = Some [], answers = Some [], submitted = False\<rparr>, None)"
  by (simp add: session_eval parser_eval)




end
